theory Spec2Isabelle
  imports Complex_Main "HOL-Library.Word" "HOL-Library.List_Lexorder" "HOL-Library.Char_ord"
begin

section \<open>The tabular store and its query (main.cpp)\<close>

text \<open>
  A shallow embedding of \<^verbatim>\<open>src/main.cpp\<close>: the field and table classes, the line
  splitter \<^verbatim>\<open>split_at\<close>, the loader \<^verbatim>\<open>ReferenceQueryEngine::loadTablesFromCSV\<close>,
  the printer \<^verbatim>\<open>DenseTable::print\<close>, the query \<^verbatim>\<open>ReferenceQueryEngine::exe\<close> and
  the repetition loop of \<^verbatim>\<open>main\<close>.

  Conventions of the model.
  \<^item> Assertions are active (no \<^verbatim>\<open>NDEBUG\<close>); a failed \<^verbatim>\<open>assert\<close>, an uncaught
    exception and a read through an invalid cast are values of the type \<open>error\<close>, and
    every function that can stop the program returns \<open>error + result\<close>.
  \<^item> \<^verbatim>\<open>std::map\<close> is an association list kept in key order; iteration is the list
    order, \<^verbatim>\<open>find\<close> is a lookup, \<^verbatim>\<open>insert\<close> leaves an existing key untouched.
    \<^verbatim>\<open>std::string\<close> keys are ordered byte-wise lexicographically.
  \<^item> A \<^verbatim>\<open>float\<close> is a finite rational, an infinity or a NaN (the two zeros are
    identified). The text conversions of the C++ library (\<^verbatim>\<open>std::stoi\<close>,
    \<^verbatim>\<open>std::stof\<close>, \<^verbatim>\<open>operator<<\<close> on \<^verbatim>\<open>int\<close> and \<^verbatim>\<open>float\<close>) are not code of
    this program: they are parameters, collected in the record \<open>platform\<close>.
  \<^item> An \<^verbatim>\<open>int\<close> field holds a mathematical integer (what \<^verbatim>\<open>stoi\<close> returned); the two
    counters of the query are 32-bit words, since \<^verbatim>\<open>+=\<close> on them wraps around.
\<close>

subsection \<open>Fields\<close>

datatype FieldType = FIELD_TYPE_INT | FIELD_TYPE_FLOAT | FIELD_TYPE_STRING

datatype float32 = Finite rat | PosInf | NegInf | NaN

text \<open>\<^verbatim>\<open>x > c\<close> and \<^verbatim>\<open>x < c\<close> for a \<^verbatim>\<open>float\<close> \<open>x\<close> and a finite constant \<open>c\<close>
  (the comparison is done in \<^verbatim>\<open>double\<close>, which holds every \<^verbatim>\<open>float\<close> exactly).\<close>

fun float_gt :: "float32 \<Rightarrow> rat \<Rightarrow> bool" where
  "float_gt (Finite x) c = (c < x)"
| "float_gt PosInf c = True"
| "float_gt NegInf c = False"
| "float_gt NaN c = False"

fun float_lt :: "float32 \<Rightarrow> rat \<Rightarrow> bool" where
  "float_lt (Finite x) c = (x < c)"
| "float_lt PosInf c = False"
| "float_lt NegInf c = True"
| "float_lt NaN c = False"

datatype Field = IntField int | FloatField float32 | StringField string


text \<open>\<^verbatim>\<open>operator<<(ostream, FieldType)\<close>.\<close>

definition print_FieldType :: "FieldType \<Rightarrow> string" where
  "print_FieldType tp =
     (if tp = FIELD_TYPE_STRING then ''STRING''
      else if tp = FIELD_TYPE_INT then ''INT''
      else ''FLOAT'')"

record platform =
  stoi :: "string \<Rightarrow> int option"
  stof :: "string \<Rightarrow> float32 option"
  show_int :: "int \<Rightarrow> string"
  show_float :: "float32 \<Rightarrow> string"
  indeterminate :: int


subsection \<open>Errors\<close>

datatype error =
    EmptyLine
  | TruncatedHeader
  | NoColumnNames
  | HeaderArityMismatch
  | UnknownColumnType string
  | MissingTableName
  | NoActiveTable
  | ArityMismatch
  | ColumnIndexAssert
  | FieldParseFailure
  | InvalidCast

text \<open>
  \<^item> \<open>EmptyLine\<close>: \<^verbatim>\<open>assert(l.size() > 0)\<close>;
  \<^item> \<open>TruncatedHeader\<close>: \<^verbatim>\<open>assert(i < (int) (lines.size()) - 2)\<close>;
  \<^item> \<open>NoColumnNames\<close>: \<^verbatim>\<open>assert(columnNames.size() >= 1)\<close>;
  \<^item> \<open>HeaderArityMismatch\<close>: \<^verbatim>\<open>assert(columnNames.size() == columnTypeNames.size())\<close>;
  \<^item> \<open>UnknownColumnType c\<close>: the message \<^verbatim>\<open>Unrecognized column type: c\<close> and \<^verbatim>\<open>assert(false)\<close>;
  \<^item> \<open>MissingTableName\<close>: \<^verbatim>\<open>l.at(1)\<close> throws on a marker line of one field;
  \<^item> \<open>NoActiveTable\<close>: \<^verbatim>\<open>assert(tables.size() > 0)\<close>;
  \<^item> \<open>ArityMismatch\<close>: \<^verbatim>\<open>assert(numCols == l.size())\<close>;
  \<^item> \<open>ColumnIndexAssert\<close>: the assertion of \<^verbatim>\<open>fieldType(columnNum)\<close>;
  \<^item> \<open>FieldParseFailure\<close>: \<^verbatim>\<open>stoi\<close> or \<^verbatim>\<open>stof\<close> throws;
  \<^item> \<open>InvalidCast\<close>: \<^verbatim>\<open>record[k]\<close> is read beyond the record, or \<^verbatim>\<open>static_cast\<close>
    to a field class the field does not have (undefined behaviour).
\<close>

subsection \<open>split\_at\<close>





subsection \<open>std::map as an ordered association list\<close>

fun map_find :: "'k \<Rightarrow> ('k \<times> 'v) list \<Rightarrow> 'v option" where
  "map_find k [] = None"
| "map_find k ((k', v) # m) = (if k = k' then Some v else map_find k m)"

text \<open>\<^verbatim>\<open>m.insert({k, v})\<close>: nothing happens when the key is present.\<close>

definition map_insert :: "'k::linorder \<Rightarrow> 'v \<Rightarrow> ('k \<times> 'v) list \<Rightarrow> ('k \<times> 'v) list" where
  "map_insert k v m =
     (case map_find k m of Some old \<Rightarrow> m | None \<Rightarrow> insort_key fst (k, v) m)"

text \<open>A write through the iterator \<^verbatim>\<open>search->second\<close> returned by \<^verbatim>\<open>find\<close>.\<close>

fun map_modify :: "'k \<Rightarrow> ('v \<Rightarrow> 'v) \<Rightarrow> ('k \<times> 'v) list \<Rightarrow> ('k \<times> 'v) list" where
  "map_modify k f [] = []"
| "map_modify k f ((k', v) # m) =
     (if k = k' then (k', f v) # m else (k', v) # map_modify k f m)"

text \<open>\<^verbatim>\<open>m.lower_bound(k)\<close>, as the list of entries from that iterator on.\<close>

fun lower_bound :: "'k::linorder \<Rightarrow> ('k \<times> 'v) list \<Rightarrow> ('k \<times> 'v) list" where
  "lower_bound k [] = []"
| "lower_bound k ((k', v) # m) = (if k' < k then lower_bound k m else (k', v) # m)"

subsection \<open>DenseTable\<close>

record DenseTable =
  name :: string
  columnNames :: "string list"
  columnTypes :: "FieldType list"
  records :: "Field list list"

definition numColumns :: "DenseTable \<Rightarrow> nat" where
  "numColumns t = length (columnNames t)"

definition addRecord :: "DenseTable \<Rightarrow> Field list \<Rightarrow> DenseTable" where
  "addRecord t r = t\<lparr>records := records t @ [r]\<rparr>"





subsection \<open>ReferenceQueryEngine: the state\<close>

definition TRADABLE :: int where "TRADABLE = 0"
definition PRICE_OVER_TIME :: int where "PRICE_OVER_TIME = 1"
definition VOLUME_OVER_TIME :: int where "VOLUME_OVER_TIME = 2"
definition TRADES :: int where "TRADES = 3"

record engine =
  tables :: "DenseTable list"
  table_headers :: "(string \<times> string list \<times> FieldType list) list"
  name_to_class :: "(string \<times> string) list"
  name_to_date_price :: "(string \<times> (int \<times> float32) list) list"
  name_to_date_volume :: "(string \<times> (int \<times> float32) list) list"
  name_to_trades :: "(string \<times> (int \<times> int \<times> int) list) list"

definition new_engine :: engine where
  "new_engine = \<lparr>tables = [], table_headers = [], name_to_class = [],
     name_to_date_price = [], name_to_date_volume = [], name_to_trades = []\<rparr>"

subsection \<open>loadTablesFromCSV\<close>

text \<open>The loop over \<^verbatim>\<open>columnTypeNames\<close>.\<close>

fun parse_column_types :: "string list \<Rightarrow> error + FieldType list" where
  "parse_column_types [] = Inr []"
| "parse_column_types (c # cs) =
     (if c = ''STRING'' then map_sum id (Cons FIELD_TYPE_STRING) (parse_column_types cs)
      else if c = ''INT'' then map_sum id (Cons FIELD_TYPE_INT) (parse_column_types cs)
      else if c = ''FLOAT'' then map_sum id (Cons FIELD_TYPE_FLOAT) (parse_column_types cs)
      else Inl (UnknownColumnType c))"

definition table_flag :: "string \<Rightarrow> int \<Rightarrow> int" where
  "table_flag cur_table cur_table_flag =
     (if cur_table = ''tradable'' then TRADABLE
      else if cur_table = ''price-over-time'' then PRICE_OVER_TIME
      else if cur_table = ''volume-over-time'' then VOLUME_OVER_TIME
      else if cur_table = ''trades'' then TRADES
      else cur_table_flag)"

text \<open>The branch of a \<^verbatim>\<open><TABLE>\<close> line \<open>l\<close>, followed by the lines \<open>columnNames\<close> and
  \<open>columnTypeNames\<close>; it returns the engine and the new \<^verbatim>\<open>cur_table_flag\<close>.\<close>

definition load_header ::
  "engine \<Rightarrow> int \<Rightarrow> string list \<Rightarrow> string list \<Rightarrow> string list \<Rightarrow> error + (engine \<times> int)" where
  "load_header st cur_table_flag l colNames columnTypeNames =
     (if \<not> length colNames \<ge> 1 then Inl NoColumnNames
      else if length colNames \<noteq> length columnTypeNames then Inl HeaderArityMismatch
      else case parse_column_types columnTypeNames of
        Inl e \<Rightarrow> Inl e
      | Inr colTypes \<Rightarrow>
          (case l of
             marker # cur_table # others \<Rightarrow>
               Inr (st\<lparr>tables := tables st @
                          [\<lparr>name = cur_table, columnNames = colNames,
                            columnTypes = colTypes, records = []\<rparr>],
                        table_headers := table_headers st @ [(cur_table, colNames, colTypes)]\<rparr>,
                    table_flag cur_table cur_table_flag)
           | _ \<Rightarrow> Inl MissingTableName))"

fun parse_field :: "platform \<Rightarrow> FieldType \<Rightarrow> string \<Rightarrow> error + Field" where
  "parse_field ps FIELD_TYPE_STRING s = Inr (StringField s)"
| "parse_field ps FIELD_TYPE_INT s =
     (case stoi ps s of None \<Rightarrow> Inl FieldParseFailure | Some v \<Rightarrow> Inr (IntField v))"
| "parse_field ps FIELD_TYPE_FLOAT s =
     (case stof ps s of None \<Rightarrow> Inl FieldParseFailure | Some v \<Rightarrow> Inr (FloatField v))"

text \<open>The loop \<^verbatim>\<open>for (int c = 0; c < numCols; c++)\<close> over the cells of a line that has
  \<open>numCols\<close> cells, against the column types from column \<open>c\<close> on.\<close>

fun parse_record :: "platform \<Rightarrow> FieldType list \<Rightarrow> string list \<Rightarrow> error + Field list" where
  "parse_record ps tps [] = Inr []"
| "parse_record ps [] (s # ss) = Inl ColumnIndexAssert"
| "parse_record ps (tp # tps) (s # ss) =
     (case parse_field ps tp s of
        Inl e \<Rightarrow> Inl e
      | Inr f \<Rightarrow> map_sum id (Cons f) (parse_record ps tps ss))"

text \<open>\<^verbatim>\<open>static_cast<...Field*>(record[k].get())->val\<close>.\<close>

definition string_at :: "Field list \<Rightarrow> nat \<Rightarrow> error + string" where
  "string_at r k =
     (if k < length r then (case r ! k of StringField v \<Rightarrow> Inr v | _ \<Rightarrow> Inl InvalidCast)
      else Inl InvalidCast)"

definition int_at :: "Field list \<Rightarrow> nat \<Rightarrow> error + int" where
  "int_at r k =
     (if k < length r then (case r ! k of IntField v \<Rightarrow> Inr v | _ \<Rightarrow> Inl InvalidCast)
      else Inl InvalidCast)"

definition float_at :: "Field list \<Rightarrow> nat \<Rightarrow> error + float32" where
  "float_at r k =
     (if k < length r then (case r ! k of FloatField v \<Rightarrow> Inr v | _ \<Rightarrow> Inl InvalidCast)
      else Inl InvalidCast)"

text \<open>The bodies of the four \<^verbatim>\<open>case\<close> labels, on the values read from the record.\<close>

definition index_tradable :: "string \<Rightarrow> string \<Rightarrow> engine \<Rightarrow> engine" where
  "index_tradable nm asset_class st =
     st\<lparr>name_to_class := map_insert nm asset_class (name_to_class st)\<rparr>"

definition index_series ::
  "string \<Rightarrow> int \<Rightarrow> float32 \<Rightarrow> (string \<times> (int \<times> float32) list) list
     \<Rightarrow> (string \<times> (int \<times> float32) list) list" where
  "index_series nm day x series =
     (case map_find nm series of
        Some found \<Rightarrow> map_modify nm (map_insert day x) series
      | None \<Rightarrow> map_insert nm [(day, x)] series)"

definition index_trade ::
  "string \<Rightarrow> int \<Rightarrow> int \<Rightarrow> int \<Rightarrow> (string \<times> (int \<times> int \<times> int) list) list
     \<Rightarrow> (string \<times> (int \<times> int \<times> int) list) list" where
  "index_trade nm ident day quant trades =
     (case map_find nm trades of
        Some found \<Rightarrow> map_modify nm (\<lambda>vec. vec @ [(ident, day, quant)]) trades
      | None \<Rightarrow> map_insert nm [(ident, day, quant)] trades)"

text \<open>\<^verbatim>\<open>switch (cur_table_flag)\<close>.\<close>

definition index_record :: "int \<Rightarrow> Field list \<Rightarrow> engine \<Rightarrow> error + engine" where
  "index_record cur_table_flag r st =
     (if cur_table_flag = TRADABLE then
        (case string_at r 0 of Inl e \<Rightarrow> Inl e | Inr nm \<Rightarrow>
         case string_at r 1 of Inl e \<Rightarrow> Inl e | Inr asset_class \<Rightarrow>
           Inr (index_tradable nm asset_class st))
      else if cur_table_flag = PRICE_OVER_TIME then
        (case string_at r 1 of Inl e \<Rightarrow> Inl e | Inr nm \<Rightarrow>
         case int_at r 0 of Inl e \<Rightarrow> Inl e | Inr day \<Rightarrow>
         case float_at r 2 of Inl e \<Rightarrow> Inl e | Inr price \<Rightarrow>
           Inr (st\<lparr>name_to_date_price := index_series nm day price (name_to_date_price st)\<rparr>))
      else if cur_table_flag = VOLUME_OVER_TIME then
        (case string_at r 1 of Inl e \<Rightarrow> Inl e | Inr nm \<Rightarrow>
         case int_at r 0 of Inl e \<Rightarrow> Inl e | Inr day \<Rightarrow>
         case float_at r 2 of Inl e \<Rightarrow> Inl e | Inr volume \<Rightarrow>
           Inr (st\<lparr>name_to_date_volume := index_series nm day volume (name_to_date_volume st)\<rparr>))
      else if cur_table_flag = TRADES then
        (case string_at r 2 of Inl e \<Rightarrow> Inl e | Inr nm \<Rightarrow>
         case int_at r 1 of Inl e \<Rightarrow> Inl e | Inr day \<Rightarrow>
         case int_at r 0 of Inl e \<Rightarrow> Inl e | Inr ident \<Rightarrow>
         case int_at r 3 of Inl e \<Rightarrow> Inl e | Inr quant \<Rightarrow>
           Inr (st\<lparr>name_to_trades := index_trade nm ident day quant (name_to_trades st)\<rparr>))
      else Inr st)"

text \<open>The branch of a data line \<open>l\<close>.\<close>

definition load_row :: "platform \<Rightarrow> engine \<Rightarrow> int \<Rightarrow> string list \<Rightarrow> error + engine" where
  "load_row ps st cur_table_flag l =
     (if \<not> length (tables st) > 0 then Inl NoActiveTable
      else let currentTable = last (tables st); numCols = numColumns currentTable in
        if numCols \<noteq> length l then Inl ArityMismatch
        else case parse_record ps (columnTypes currentTable) l of
          Inl e \<Rightarrow> Inl e
        | Inr r \<Rightarrow>
            (case index_record cur_table_flag r st of
               Inl e \<Rightarrow> Inl e
             | Inr st' \<Rightarrow>
                 Inr (st'\<lparr>tables := butlast (tables st') @ [addRecord (last (tables st')) r]\<rparr>)))"

text \<open>The loop over the lines, from line \<open>i\<close> on; a header consumes three lines.\<close>

fun load_loop :: "platform \<Rightarrow> engine \<Rightarrow> int \<Rightarrow> string list list \<Rightarrow> error + engine" where
  "load_loop ps st cur_table_flag [] = Inr st"
| "load_loop ps st cur_table_flag (l # rest) =
     (if \<not> length l > 0 then Inl EmptyLine
      else if hd l = ''<TABLE>'' then
        (case rest of
           colNames # columnTypeNames # rest' \<Rightarrow>
             (case load_header st cur_table_flag l colNames columnTypeNames of
                Inl e \<Rightarrow> Inl e
              | Inr (st', flag') \<Rightarrow> load_loop ps st' flag' rest')
         | _ \<Rightarrow> Inl TruncatedHeader)
      else
        (case load_row ps st cur_table_flag l of
           Inl e \<Rightarrow> Inl e
         | Inr st' \<Rightarrow> load_loop ps st' cur_table_flag rest))"

definition loadTablesFromCSV :: "platform \<Rightarrow> engine \<Rightarrow> string list list \<Rightarrow> error + engine" where
  "loadTablesFromCSV ps st lines = load_loop ps st (indeterminate ps) lines"

subsection \<open>exe\<close>

text \<open>The two scans: \<^verbatim>\<open>valid_flag = true\<close>, then the \<^verbatim>\<open>for\<close> loop from
  \<^verbatim>\<open>lower_bound(13)\<close> while the key is at most 268, with its \<^verbatim>\<open>break\<close>. The value is
  the flag after the loop.\<close>

fun price_loop :: "(int \<times> float32) list \<Rightarrow> bool" where
  "price_loop [] = True"
| "price_loop ((day, price) # rest) =
     (if day \<le> 268 then (if float_gt price 299 then False else price_loop rest) else True)"

fun volume_loop :: "(int \<times> float32) list \<Rightarrow> bool" where
  "volume_loop [] = True"
| "volume_loop ((day, volume) # rest) =
     (if day \<le> 268 then (if float_lt volume 10 then False else volume_loop rest) else True)"

definition price_scan :: "(int \<times> float32) list \<Rightarrow> bool" where
  "price_scan date_to_price = price_loop (lower_bound 13 date_to_price)"

definition volume_scan :: "(int \<times> float32) list \<Rightarrow> bool" where
  "volume_scan date_to_volume = volume_loop (lower_bound 13 date_to_volume)"

text \<open>The state of the loop of \<^verbatim>\<open>exe\<close>: \<^verbatim>\<open>valid_flag\<close>, \<^verbatim>\<open>valid_stock_cnt\<close>,
  \<^verbatim>\<open>valid_bond_cnt\<close>. The counters are \<^verbatim>\<open>int\<close>; adding a \<^verbatim>\<open>size_t\<close> to them wraps
  around at 32 bits.\<close>

type_synonym counts = "bool \<times> 32 word \<times> 32 word"

definition add_trades :: "string \<Rightarrow> nat \<Rightarrow> bool \<Rightarrow> 32 word \<Rightarrow> 32 word \<Rightarrow> counts" where
  "add_trades asset_class n valid_flag valid_stock_cnt valid_bond_cnt =
     (if asset_class = ''stock'' then (valid_flag, valid_stock_cnt + of_nat n, valid_bond_cnt)
      else (valid_flag, valid_stock_cnt, valid_bond_cnt + of_nat n))"

text \<open>
  \<^verbatim>\<open>exe\<close> is a member function that is not \<^verbatim>\<open>const\<close>: the engine is its object, and
  every statement that touches a member of the engine is modelled as a function that
  returns the engine as it leaves it, together with what it read. \<^verbatim>\<open>exe\<close> touches the
  engine in four places. \<^verbatim>\<open>name_to_class.begin()\<close> with \<^verbatim>\<open>++ite\<close> up to \<^verbatim>\<open>end()\<close>
  yields the entries in key order; \<^verbatim>\<open>find\<close> on the three other maps yields the mapped
  value of a key that is present. None of them inserts or assigns (as
  \<^verbatim>\<open>operator[]\<close> would), so each returns the engine it was given.
\<close>

definition class_begin :: "engine \<Rightarrow> (string \<times> string) list \<times> engine" where
  "class_begin st = (name_to_class st, st)"

definition trades_find :: "string \<Rightarrow> engine \<Rightarrow> (int \<times> int \<times> int) list option \<times> engine" where
  "trades_find nm st = (map_find nm (name_to_trades st), st)"

definition price_find :: "string \<Rightarrow> engine \<Rightarrow> (int \<times> float32) list option \<times> engine" where
  "price_find nm st = (map_find nm (name_to_date_price st), st)"

definition volume_find :: "string \<Rightarrow> engine \<Rightarrow> (int \<times> float32) list option \<times> engine" where
  "volume_find nm st = (map_find nm (name_to_date_volume st), st)"

text \<open>One iteration of the loop over \<^verbatim>\<open>name_to_class\<close>, at the entry \<open>ite\<close>: the engine
  and the loop state before it, the engine and the loop state after it.\<close>

definition exe_body :: "string \<times> string \<Rightarrow> engine \<Rightarrow> counts \<Rightarrow> engine \<times> counts" where
  "exe_body ite st acc =
     (case acc of (valid_flag, valid_stock_cnt, valid_bond_cnt) \<Rightarrow>
      if snd ite \<noteq> ''stock'' \<and> snd ite \<noteq> ''bond'' then (st, acc)
      else case trades_find (fst ite) st of
        (None, st) \<Rightarrow> (st, acc)
      | (Some trades, st) \<Rightarrow>
          (case price_find (fst ite) st of (search, st) \<Rightarrow>
           let valid_flag1 =
                 (case search of
                    Some date_to_price \<Rightarrow> price_scan date_to_price
                  | None \<Rightarrow> valid_flag)
           in if valid_flag1 = True
              then (st, add_trades (snd ite) (length trades) valid_flag1
                          valid_stock_cnt valid_bond_cnt)
              else
                (case volume_find (fst ite) st of (search, st) \<Rightarrow>
                 let valid_flag2 =
                       (case search of
                          Some date_to_volume \<Rightarrow> volume_scan date_to_volume
                        | None \<Rightarrow> valid_flag1)
                 in if valid_flag2 = True
                    then (st, add_trades (snd ite) (length trades) valid_flag2
                                valid_stock_cnt valid_bond_cnt)
                    else (st, valid_flag2, valid_stock_cnt, valid_bond_cnt))))"

text \<open>The loop state after one iteration.\<close>

definition exe_step :: "engine \<Rightarrow> string \<times> string \<Rightarrow> counts \<Rightarrow> counts" where
  "exe_step st ite acc = snd (exe_body ite st acc)"

text \<open>The loop, from the iterator \<open>ite\<close> (the entries not yet visited) on.\<close>

fun exe_loop :: "(string \<times> string) list \<Rightarrow> engine \<Rightarrow> counts \<Rightarrow> engine \<times> counts" where
  "exe_loop [] st acc = (st, acc)"
| "exe_loop (ite # rest) st acc =
     (case exe_body ite st acc of (st', acc') \<Rightarrow> exe_loop rest st' acc')"

text \<open>The first part of \<^verbatim>\<open>exe\<close>: the declarations and the loop.\<close>

definition exe_count :: "engine \<Rightarrow> engine \<times> counts" where
  "exe_count st =
     (case class_begin st of (entries, st) \<Rightarrow> exe_loop entries st (False, 0, 0))"

definition exe_counts :: "engine \<Rightarrow> counts" where
  "exe_counts st = snd (exe_count st)"

text \<open>The end of \<^verbatim>\<open>exe\<close>: the result table is built from the two counters through the
  vector \<^verbatim>\<open>record\<close>, which \<^verbatim>\<open>addRecord\<close> moves from and \<^verbatim>\<open>clear()\<close> empties.\<close>

definition exe_table :: "32 word \<Rightarrow> 32 word \<Rightarrow> DenseTable" where
  "exe_table valid_stock_cnt valid_bond_cnt =
     (let ret_table = \<lparr>name = ''asset-class_counts'',
                       columnNames = [''asset-class'', ''count''],
                       columnTypes = [FIELD_TYPE_STRING, FIELD_TYPE_INT],
                       records = []\<rparr>;
          r = [];
          (ret_table, r) =
            (if valid_bond_cnt \<noteq> 0
             then (addRecord ret_table (r @ [StringField ''bond'', IntField (sint valid_bond_cnt)]), [])
             else (ret_table, r))
      in if valid_stock_cnt \<noteq> 0
         then addRecord ret_table (r @ [StringField ''stock'', IntField (sint valid_stock_cnt)])
         else ret_table)"

text \<open>\<^verbatim>\<open>exe\<close>: the engine as the function leaves it, and the table it returns.\<close>

definition exe :: "engine \<Rightarrow> engine \<times> DenseTable" where
  "exe st =
     (case exe_count st of (st', valid_flag, valid_stock_cnt, valid_bond_cnt) \<Rightarrow>
        (st', exe_table valid_stock_cnt valid_bond_cnt))"

subsection \<open>main\<close>

text \<open>The timing loop \<^verbatim>\<open>for (int i = 0; i < 5; i++) table = engine.exe();\<close>, with the
  number of iterations left.\<close>

fun run_exe :: "nat \<Rightarrow> engine \<Rightarrow> DenseTable option \<Rightarrow> engine \<times> DenseTable option" where
  "run_exe 0 st table = (st, table)"
| "run_exe (Suc n) st table = (case exe st of (st', t) \<Rightarrow> run_exe n st' (Some t))"



subsection \<open>A platform for concrete inputs\<close>

text \<open>
  Concrete inputs need concrete text conversions. The functions below follow the library
  on the texts used here: \<open>dec_stoi\<close> is \<^verbatim>\<open>std::stoi\<close> in base 10 (leading white
  space, an optional sign, the longest run of digits, failure without a digit or
  outside 32 bits); \<open>dec_stof\<close> reads a sign, digits and an optional fraction, and
  agrees with \<^verbatim>\<open>std::stof\<close> on such a text when its value is a \<^verbatim>\<open>float\<close> (as
  \<^verbatim>\<open>250.0\<close>, \<^verbatim>\<open>299.0\<close>, \<^verbatim>\<open>300.0\<close>, \<^verbatim>\<open>10.0\<close>, \<^verbatim>\<open>9.5\<close> are); \<open>dec_show_int\<close> is the
  decimal rendering of an \<^verbatim>\<open>int\<close>; \<open>dec_show_float\<close> agrees with the default
  formatting of a \<^verbatim>\<open>float\<close> on integral values below a million and on the special
  values, and is not meant beyond them.
\<close>

definition is_space :: "char \<Rightarrow> bool" where
  "is_space c = (c \<in> set [CHR 0x20, CHR 0x09, CHR 0x0A, CHR 0x0B, CHR 0x0C, CHR 0x0D])"

definition is_digit :: "char \<Rightarrow> bool" where
  "is_digit c = (CHR ''0'' \<le> c \<and> c \<le> CHR ''9'')"

fun dec_val :: "nat \<Rightarrow> string \<Rightarrow> nat" where
  "dec_val acc [] = acc"
| "dec_val acc (c # cs) = dec_val (10 * acc + (of_char c - 48)) cs"

definition split_sign :: "string \<Rightarrow> bool \<times> string" where
  "split_sign s =
     (case s of
        [] \<Rightarrow> (False, s)
      | c # r \<Rightarrow> if c = CHR ''-'' then (True, r) else if c = CHR ''+'' then (False, r) else (False, s))"

definition dec_stoi :: "string \<Rightarrow> int option" where
  "dec_stoi s =
     (case split_sign (dropWhile is_space s) of (neg, body) \<Rightarrow>
        let ds = takeWhile is_digit body;
            v = (if neg then - int (dec_val 0 ds) else int (dec_val 0 ds))
        in if ds = [] then None
           else if - (2 ^ 31) \<le> v \<and> v < 2 ^ 31 then Some v else None)"

definition dec_stof :: "string \<Rightarrow> float32 option" where
  "dec_stof s =
     (case split_sign (dropWhile is_space s) of (neg, body) \<Rightarrow>
        let ip = takeWhile is_digit body;
            r = dropWhile is_digit body;
            fp = (case r of [] \<Rightarrow> [] | c # r' \<Rightarrow> if c = CHR ''.'' then takeWhile is_digit r' else []);
            q = (of_nat (dec_val 0 (ip @ fp)) / 10 ^ length fp :: rat)
        in if ip = [] \<and> fp = [] then None
           else Some (Finite (if neg then - q else q)))"

fun show_nat :: "nat \<Rightarrow> string" where
  "show_nat n =
     (if n < 10 then [''0123456789'' ! n]
      else show_nat (n div 10) @ [''0123456789'' ! (n mod 10)])"

declare show_nat.simps [simp del]

definition dec_show_int :: "int \<Rightarrow> string" where
  "dec_show_int v = (if v < 0 then ''-'' @ show_nat (nat (- v)) else show_nat (nat v))"

fun dec_show_float :: "float32 \<Rightarrow> string" where
  "dec_show_float (Finite q) =
     (if q = of_int \<lfloor>q\<rfloor> \<and> \<bar>q\<bar> < 1000000 then dec_show_int \<lfloor>q\<rfloor> else ''?'')"
| "dec_show_float PosInf = ''inf''"
| "dec_show_float NegInf = ''-inf''"
| "dec_show_float NaN = ''nan''"

definition dec_platform :: platform where
  "dec_platform = \<lparr>stoi = dec_stoi, stof = dec_stof, show_int = dec_show_int,
     show_float = dec_show_float, indeterminate = - 1\<rparr>"

subsection \<open>Observers and concrete inputs\<close>

text \<open>The two counters at the end of the loop of \<^verbatim>\<open>exe\<close>.\<close>

definition valid_stock_cnt :: "engine \<Rightarrow> 32 word" where
  "valid_stock_cnt st = fst (snd (exe_counts st))"

definition valid_bond_cnt :: "engine \<Rightarrow> 32 word" where
  "valid_bond_cnt st = snd (snd (exe_counts st))"

text \<open>The price the index holds for an instrument and a day.\<close>

definition price_at :: "engine \<Rightarrow> string \<Rightarrow> int \<Rightarrow> float32 option" where
  "price_at st nm day =
     (case map_find nm (name_to_date_price st) of
        None \<Rightarrow> None
      | Some date_to_price \<Rightarrow> map_find day date_to_price)"

text \<open>An engine with three instruments: AAA is a stock whose price fails on day 13 and
  whose volume passes, BBB is a bond with a price of exactly 299 on day 13, GLD is
  neither a stock nor a bond.\<close>

definition sample_engine :: engine where
  "sample_engine =
     \<lparr>tables = [], table_headers = [],
      name_to_class = [(''AAA'', ''stock''), (''BBB'', ''bond''), (''GLD'', ''commodity'')],
      name_to_date_price =
        [(''AAA'', [(12, Finite 500), (13, Finite 300), (269, Finite 1)]),
         (''BBB'', [(13, Finite 299)]),
         (''GLD'', [(13, Finite 1)])],
      name_to_date_volume =
        [(''AAA'', [(12, Finite 1), (13, Finite 10), (20, Finite 50), (269, Finite 0)])],
      name_to_trades =
        [(''AAA'', [(1, 13, 5), (2, 14, 6)]),
         (''BBB'', [(4, 20, 2)]),
         (''GLD'', [(3, 13, 1)])]\<rparr>"

text \<open>The three type tokens of a column-type line, compared as exact strings.\<close>

definition type_token :: "string \<Rightarrow> bool" where
  "type_token c = (c = ''STRING'' \<or> c = ''INT'' \<or> c = ''FLOAT'')"

text \<open>A header whose type line has an unknown token and one token more than the
  name line.\<close>

definition bad_header_lines :: "string list list" where
  "bad_header_lines = [[''<TABLE>'', ''t''], [''a''], [''INT'', ''BOGUS'']]"

text \<open>An engine that holds one empty table of two columns.\<close>

definition two_column_engine :: engine where
  "two_column_engine =
     new_engine\<lparr>tables := [\<lparr>name = ''t'', columnNames = [''a'', ''b''],
       columnTypes = [FIELD_TYPE_INT, FIELD_TYPE_INT], records = []\<rparr>]\<rparr>"

text \<open>Two price rows for the same instrument and day, with different prices.\<close>

definition duplicate_day_lines :: "string list list" where
  "duplicate_day_lines =
     [[''<TABLE>'', ''price-over-time''],
      [''day'', ''name'', ''price''],
      [''INT'', ''STRING'', ''FLOAT''],
      [''13'', ''AAA'', ''250.0''],
      [''13'', ''AAA'', ''300.0'']]"

text \<open>The engine after the header of a price table.\<close>

definition price_header_engine :: engine where
  "price_header_engine =
     new_engine\<lparr>tables := [\<lparr>name = ''price-over-time'', columnNames = [''day'', ''name'', ''price''],
       columnTypes = [FIELD_TYPE_INT, FIELD_TYPE_STRING, FIELD_TYPE_FLOAT], records = []\<rparr>]\<rparr>"

text \<open>The value a series map holds for an instrument and a day.\<close>

definition series_at :: "(string \<times> (int \<times> float32) list) list \<Rightarrow> string \<Rightarrow> int \<Rightarrow> float32 option" where
  "series_at series nm day =
     (case map_find nm series of None \<Rightarrow> None | Some m \<Rightarrow> map_find day m)"

text \<open>AAA and BBB are stocks with one trade each; AAA has a price series that passes,
  BBB has neither a price series nor a volume series. In \<open>lone_instrument_lines\<close> BBB
  is the only instrument.\<close>

definition stale_flag_lines :: "string list list" where
  "stale_flag_lines =
     [[''<TABLE>'', ''tradable''],
      [''name'', ''class''],
      [''STRING'', ''STRING''],
      [''AAA'', ''stock''],
      [''BBB'', ''stock''],
      [''<TABLE>'', ''price-over-time''],
      [''day'', ''name'', ''price''],
      [''INT'', ''STRING'', ''FLOAT''],
      [''13'', ''AAA'', ''250.0''],
      [''<TABLE>'', ''trades''],
      [''id'', ''day'', ''name'', ''quantity''],
      [''INT'', ''INT'', ''STRING'', ''INT''],
      [''1'', ''13'', ''AAA'', ''5''],
      [''2'', ''13'', ''BBB'', ''7'']]"

definition lone_instrument_lines :: "string list list" where
  "lone_instrument_lines =
     [[''<TABLE>'', ''tradable''],
      [''name'', ''class''],
      [''STRING'', ''STRING''],
      [''BBB'', ''stock''],
      [''<TABLE>'', ''trades''],
      [''id'', ''day'', ''name'', ''quantity''],
      [''INT'', ''INT'', ''STRING'', ''INT''],
      [''2'', ''13'', ''BBB'', ''7'']]"










text \<open>Every series of a series map, and of an engine, is in key order.\<close>

definition series_sorted :: "(string \<times> (int \<times> float32) list) list \<Rightarrow> bool" where
  "series_sorted series = (\<forall>e \<in> set series. sorted (map fst (snd e)))"

definition engine_sorted :: "engine \<Rightarrow> bool" where
  "engine_sorted st =
     (series_sorted (name_to_date_price st) \<and> series_sorted (name_to_date_volume st))"

text \<open>A record is a row of a table of the engine.\<close>

definition row_stored :: "engine \<Rightarrow> Field list \<Rightarrow> bool" where
  "row_stored st r = (\<exists>t \<in> set (tables st). r \<in> set (records t))"

text \<open>The engine after the header of a price table and one row.\<close>

definition one_price_engine :: engine where
  "one_price_engine =
     price_header_engine
       \<lparr>tables := [\<lparr>name = ''price-over-time'', columnNames = [''day'', ''name'', ''price''],
           columnTypes = [FIELD_TYPE_INT, FIELD_TYPE_STRING, FIELD_TYPE_FLOAT],
           records = [[IntField 13, StringField ''AAA'', FloatField (Finite 250)]]\<rparr>],
        name_to_date_price := [(''AAA'', [(13, Finite 250)])]\<rparr>"

section \<open>Properties\<close>

subsection \<open>The scans of the query\<close>

lemma lower_bound_set:
  "sorted (map fst m) \<Longrightarrow> set (lower_bound k m) = {e \<in> set m. k \<le> fst e}"
  by (induction m) (fastforce simp: not_less split: if_splits)+

lemma lower_bound_sorted:
  "sorted (map fst m) \<Longrightarrow> sorted (map fst (lower_bound k m))"
  by (induction m) auto

lemma price_loop_iff:
  "sorted (map fst m) \<Longrightarrow>
     price_loop m \<longleftrightarrow> (\<forall>e \<in> set m. fst e \<le> 268 \<longrightarrow> \<not> float_gt (snd e) 299)"
  by (induction m rule: price_loop.induct) (auto simp: not_le)

lemma volume_loop_iff:
  "sorted (map fst m) \<Longrightarrow>
     volume_loop m \<longleftrightarrow> (\<forall>e \<in> set m. fst e \<le> 268 \<longrightarrow> \<not> float_lt (snd e) 10)"
  by (induction m rule: volume_loop.induct) (auto simp: not_le)

lemma price_scan_iff:
  "sorted (map fst m) \<Longrightarrow>
     price_scan m \<longleftrightarrow> (\<forall>(d, p) \<in> set m. 13 \<le> d \<and> d \<le> 268 \<longrightarrow> \<not> float_gt p 299)"
  unfolding price_scan_def
  by (simp add: price_loop_iff lower_bound_sorted lower_bound_set) auto

lemma volume_scan_iff:
  "sorted (map fst m) \<Longrightarrow>
     volume_scan m \<longleftrightarrow> (\<forall>(d, v) \<in> set m. 13 \<le> d \<and> d \<le> 268 \<longrightarrow> \<not> float_lt v 10)"
  unfolding volume_scan_def
  by (simp add: volume_loop_iff lower_bound_sorted lower_bound_set) auto

text \<open>
  Claim C5. On a series in key order, the price scan leaves the flag true exactly when
  no day from 13 to 268 has a price strictly above 299, and the volume scan exactly when
  no day from 13 to 268 has a volume strictly below 10. So a price of exactly 299 and a
  volume of exactly 10 do not invalidate, and what is recorded on day 12 or day 269 (or
  on any day outside the range) has no influence on the flag.
\<close>

theorem validity_boundary:
  assumes "sorted (map fst m)"
  shows "(price_scan m \<longleftrightarrow> (\<forall>(d, p) \<in> set m. 13 \<le> d \<and> d \<le> 268 \<longrightarrow> \<not> float_gt p 299))
       \<and> (volume_scan m \<longleftrightarrow> (\<forall>(d, v) \<in> set m. 13 \<le> d \<and> d \<le> 268 \<longrightarrow> \<not> float_lt v 10))
       \<and> \<not> float_gt (Finite 299) 299 \<and> \<not> float_lt (Finite 10) 10"
  using assms by (simp add: price_scan_iff volume_scan_iff)

theorem validity_boundary_witness:
  "price_scan [(12, Finite 500), (13, Finite 299), (268, Finite 299), (269, Finite 1000)]
   \<and> volume_scan [(12, Finite 1), (13, Finite 10), (268, Finite 10), (269, Finite 0)]
   \<and> \<not> price_scan [(12, Finite 500), (13, Finite 299), (268, Finite 300), (269, Finite 1000)]
   \<and> \<not> volume_scan [(12, Finite 1), (13, Finite 10), (268, Finite 9), (269, Finite 0)]"
proof -
  have s: "sorted (map fst [(12::int, x1), (13, x2), (268, x3), (269, x4)])" for x1 x2 x3 x4 :: float32
    by simp
  show ?thesis
    using validity_boundary [OF s, of "Finite 500" "Finite 299" "Finite 299" "Finite 1000"]
      validity_boundary [OF s, of "Finite 1" "Finite 10" "Finite 10" "Finite 0"]
      validity_boundary [OF s, of "Finite 500" "Finite 299" "Finite 300" "Finite 1000"]
      validity_boundary [OF s, of "Finite 1" "Finite 10" "Finite 9" "Finite 0"]
    by simp
qed

subsection \<open>The loop of the query\<close>

text \<open>No iteration changes the engine, so the loop state after an iteration is a function
  of the engine, the entry and the loop state before it, and the loop is a fold.\<close>

lemma exe_body_engine: "fst (exe_body ite st acc) = st"
  by (auto simp: exe_body_def trades_find_def price_find_def volume_find_def Let_def
      split: prod.splits option.splits)

lemma exe_body_step: "exe_body ite st acc = (st, exe_step st ite acc)"
  using exe_body_engine [of ite st acc] by (simp add: exe_step_def prod_eq_iff)

lemma exe_step_eq:
  "exe_step st ite acc =
     (case acc of (valid_flag, stock_cnt, bond_cnt) \<Rightarrow>
      if snd ite \<noteq> ''stock'' \<and> snd ite \<noteq> ''bond'' then acc
      else case map_find (fst ite) (name_to_trades st) of
        None \<Rightarrow> acc
      | Some trades \<Rightarrow>
          let valid_flag1 =
                (case map_find (fst ite) (name_to_date_price st) of
                   Some date_to_price \<Rightarrow> price_scan date_to_price
                 | None \<Rightarrow> valid_flag)
          in if valid_flag1
             then add_trades (snd ite) (length trades) valid_flag1 stock_cnt bond_cnt
             else
               let valid_flag2 =
                     (case map_find (fst ite) (name_to_date_volume st) of
                        Some date_to_volume \<Rightarrow> volume_scan date_to_volume
                      | None \<Rightarrow> valid_flag1)
               in if valid_flag2
                  then add_trades (snd ite) (length trades) valid_flag2 stock_cnt bond_cnt
                  else (valid_flag2, stock_cnt, bond_cnt))"
  by (auto simp: exe_step_def exe_body_def trades_find_def price_find_def volume_find_def Let_def
      split: prod.splits option.splits)

lemma exe_loop_fold:
  "exe_loop entries st acc = (st, foldl (\<lambda>a ite. exe_step st ite a) acc entries)"
  by (induction entries arbitrary: acc) (simp_all add: exe_body_step)

lemma exe_count_fold:
  "exe_count st = (st, foldl (\<lambda>a ite. exe_step st ite a) (False, 0, 0) (name_to_class st))"
  by (simp add: exe_count_def class_begin_def exe_loop_fold)

lemma exe_counts_foldl:
  "exe_counts st = foldl (\<lambda>a ite. exe_step st ite a) (False, 0, 0) (name_to_class st)"
  by (simp add: exe_counts_def exe_count_fold)

text \<open>What an iteration decides does not depend on the counters: counters that start
  higher end higher by the same amounts.\<close>

lemma exe_step_shift:
  "exe_step st ite (valid_flag, sc + a, bc + b) =
     (case exe_step st ite (valid_flag, sc, bc) of (f, sc', bc') \<Rightarrow> (f, sc' + a, bc' + b))"
  by (auto simp: exe_step_eq add_trades_def Let_def split: option.splits)

lemma exe_fold_shift:
  "foldl (\<lambda>a ite. exe_step st ite a) (valid_flag, sc + a, bc + b) entries =
     (case foldl (\<lambda>a ite. exe_step st ite a) (valid_flag, sc, bc) entries of
        (f, sc', bc') \<Rightarrow> (f, sc' + a, bc' + b))"
proof (induction entries arbitrary: valid_flag sc bc)
  case Nil
  show ?case by simp
next
  case (Cons ite entries)
  obtain f sc' bc' where s: "exe_step st ite (valid_flag, sc, bc) = (f, sc', bc')"
    by (cases "exe_step st ite (valid_flag, sc, bc)") auto
  then have "exe_step st ite (valid_flag, sc + a, bc + b) = (f, sc' + a, bc' + b)"
    by (simp add: exe_step_shift)
  with s Cons.IH [of f sc' bc'] show ?case by simp
qed

subsection \<open>One instrument of the query\<close>

text \<open>
  Claim C7. At an instrument whose class is neither \<open>stock\<close> nor \<open>bond\<close>, or that has
  no entry in the trade lists, the loop body of \<^verbatim>\<open>exe\<close> leaves both counters (and
  the flag) as they were, whatever its price and volume series are.
\<close>

theorem exe_step_skips:
  "(snd ite \<noteq> ''stock'' \<and> snd ite \<noteq> ''bond'') \<or> map_find (fst ite) (name_to_trades st) = None
     \<Longrightarrow> exe_step st ite acc = acc"
  by (auto simp: exe_step_eq split: prod.splits)

theorem exe_step_skips_witness:
  "exe_step sample_engine (''GLD'', ''commodity'') (True, 3, 4) = (True, 3, 4)
   \<and> exe_step (sample_engine\<lparr>name_to_trades := []\<rparr>) (''AAA'', ''stock'') (True, 3, 4) = (True, 3, 4)"
proof -
  have h1: "(snd (''GLD'', ''commodity'') \<noteq> ''stock'' \<and> snd (''GLD'', ''commodity'') \<noteq> ''bond'')
      \<or> map_find (fst (''GLD'', ''commodity'')) (name_to_trades sample_engine) = None"
    by simp
  have h2: "(snd (''AAA'', ''stock'') \<noteq> ''stock'' \<and> snd (''AAA'', ''stock'') \<noteq> ''bond'')
      \<or> map_find (fst (''AAA'', ''stock'')) (name_to_trades (sample_engine\<lparr>name_to_trades := []\<rparr>)) = None"
    by simp
  show ?thesis
    using exe_step_skips [OF h1] exe_step_skips [OF h2] by simp
qed

lemma failing_price_passing_volume_step:
  assumes cls: "snd ite = ''stock'' \<or> snd ite = ''bond''"
    and trades: "map_find (fst ite) (name_to_trades st) = Some trades"
    and prices: "map_find (fst ite) (name_to_date_price st) = Some date_to_price"
      "sorted (map fst date_to_price)"
    and bad: "(d, p) \<in> set date_to_price" "13 \<le> d" "d \<le> 268" "float_gt p 299"
    and volumes: "map_find (fst ite) (name_to_date_volume st) = Some date_to_volume"
      "sorted (map fst date_to_volume)"
    and good: "\<forall>(d, v) \<in> set date_to_volume. 13 \<le> d \<and> d \<le> 268 \<longrightarrow> \<not> float_lt v 10"
  shows "exe_step st ite (valid_flag, stock_cnt, bond_cnt) =
           (if snd ite = ''stock'' then (True, stock_cnt + of_nat (length trades), bond_cnt)
            else (True, stock_cnt, bond_cnt + of_nat (length trades)))"
proof -
  have p: "\<not> price_scan date_to_price"
    using prices(2) bad by (auto simp: price_scan_iff)
  have v: "volume_scan date_to_volume"
    using volumes(2) good by (simp add: volume_scan_iff)
  show ?thesis
    using cls trades prices(1) volumes(1) p v
    by (auto simp: exe_step_eq add_trades_def)
qed

text \<open>
  Claim C4. Let an instrument be an entry of the class map, a stock or a bond, with a
  trade list, a price series that has a day from 13 to 268 with a price above 299, and a
  volume series that has no day from 13 to 268 with a volume below 10 (both series in
  key order, as every series of a \<^verbatim>\<open>std::map\<close> is). Then the loop reaches it, its
  iteration adds the number of its trades to the counter of its class and leaves the
  flag true, whatever the flag was, and the total of its class at the end of the query
  is the sum of three parts: what the instruments before it added, the number of its
  trades, and what the instruments after it add. The other total has no part of it.
\<close>

theorem failing_price_passing_volume_counted:
  assumes entry: "name_to_class st = before @ ite # after"
    and cls: "snd ite = ''stock'' \<or> snd ite = ''bond''"
    and trades: "map_find (fst ite) (name_to_trades st) = Some trades" "trades \<noteq> []"
    and prices: "map_find (fst ite) (name_to_date_price st) = Some date_to_price"
      "sorted (map fst date_to_price)"
    and bad: "(d, p) \<in> set date_to_price" "13 \<le> d" "d \<le> 268" "float_gt p 299"
    and volumes: "map_find (fst ite) (name_to_date_volume st) = Some date_to_volume"
      "sorted (map fst date_to_volume)"
    and good: "\<forall>(d, v) \<in> set date_to_volume. 13 \<le> d \<and> d \<le> 268 \<longrightarrow> \<not> float_lt v 10"
    and first: "foldl (\<lambda>a i. exe_step st i a) (False, 0, 0) before = (flag1, stock1, bond1)"
    and rest: "foldl (\<lambda>a i. exe_step st i a) (True, 0, 0) after = (flag2, stock2, bond2)"
  shows "exe_step st ite (flag1, stock1, bond1) =
           (if snd ite = ''stock'' then (True, stock1 + of_nat (length trades), bond1)
            else (True, stock1, bond1 + of_nat (length trades)))
       \<and> valid_stock_cnt st =
           (if snd ite = ''stock'' then stock1 + of_nat (length trades) + stock2
            else stock1 + stock2)
       \<and> valid_bond_cnt st =
           (if snd ite = ''stock'' then bond1 + bond2
            else bond1 + of_nat (length trades) + bond2)"
proof -
  let ?step = "\<lambda>a i. exe_step st i a"
  have step: "exe_step st ite (flag1, stock1, bond1) =
      (if snd ite = ''stock'' then (True, stock1 + of_nat (length trades), bond1)
       else (True, stock1, bond1 + of_nat (length trades)))"
    by (rule failing_price_passing_volume_step
        [OF cls trades(1) prices bad volumes good])
  have "exe_counts st = foldl ?step (exe_step st ite (flag1, stock1, bond1)) after"
    by (simp add: exe_counts_foldl entry first)
  moreover have "foldl ?step (True, 0 + x, 0 + y) after = (flag2, stock2 + x, bond2 + y)" for x y
    by (simp only: exe_fold_shift rest prod.case)
  ultimately have "exe_counts st =
      (if snd ite = ''stock'' then (flag2, stock2 + (stock1 + of_nat (length trades)), bond2 + bond1)
       else (flag2, stock2 + stock1, bond2 + (bond1 + of_nat (length trades))))"
    by (simp add: step)
  then show ?thesis
    using step by (simp add: valid_stock_cnt_def valid_bond_cnt_def add.commute add.left_commute)
qed

theorem failing_price_passing_volume_counted_witness:
  "exe_step sample_engine (''AAA'', ''stock'') (False, 0, 0) = (True, 2, 0)
   \<and> valid_stock_cnt sample_engine = 2 \<and> valid_bond_cnt sample_engine = 1"
proof -
  have entry: "name_to_class sample_engine
      = [] @ (''AAA'', ''stock'') # [(''BBB'', ''bond''), (''GLD'', ''commodity'')]"
    by (simp add: sample_engine_def)
  have cls: "snd (''AAA'', ''stock'') = ''stock'' \<or> snd (''AAA'', ''stock'') = ''bond''"
    by simp
  have trades: "map_find (fst (''AAA'', ''stock'')) (name_to_trades sample_engine)
      = Some [(1, 13, 5), (2, 14, 6)]"
    by (simp add: sample_engine_def)
  have ne: "[(1::int, 13::int, 5::int), (2, 14, 6)] \<noteq> []"
    by simp
  have prices: "map_find (fst (''AAA'', ''stock'')) (name_to_date_price sample_engine)
      = Some [(12, Finite 500), (13, Finite 300), (269, Finite 1)]"
    by (simp add: sample_engine_def)
  have sp: "sorted (map fst [(12::int, Finite 500), (13, Finite 300), (269, Finite 1)])"
    by simp
  have bad: "(13, Finite 300) \<in> set [(12::int, Finite 500), (13, Finite 300), (269, Finite 1)]"
    "(13::int) \<le> 13" "(13::int) \<le> 268" "float_gt (Finite 300) 299"
    by simp_all
  have volumes: "map_find (fst (''AAA'', ''stock'')) (name_to_date_volume sample_engine)
      = Some [(12, Finite 1), (13, Finite 10), (20, Finite 50), (269, Finite 0)]"
    by (simp add: sample_engine_def)
  have sv: "sorted (map fst [(12::int, Finite 1), (13, Finite 10), (20, Finite 50), (269, Finite 0)])"
    by simp
  have good: "\<forall>(d, v) \<in> set [(12::int, Finite 1), (13, Finite 10), (20, Finite 50), (269, Finite 0)].
      13 \<le> d \<and> d \<le> 268 \<longrightarrow> \<not> float_lt v 10"
    by simp
  have first: "foldl (\<lambda>a i. exe_step sample_engine i a) (False, 0, 0) [] = (False, 0, 0)"
    by simp
  have rest: "foldl (\<lambda>a i. exe_step sample_engine i a) (True, 0, 0)
      [(''BBB'', ''bond''), (''GLD'', ''commodity'')] = (True, 0, 1)"
    by (simp add: sample_engine_def exe_step_eq add_trades_def price_scan_def)
  show ?thesis
    using failing_price_passing_volume_counted
      [OF entry cls trades ne prices sp bad volumes sv good first rest]
    by simp
qed

subsection \<open>The result table and the frame of the query\<close>

text \<open>
  Claim C6. The table returned by \<^verbatim>\<open>exe\<close> is named \<open>asset-class_counts\<close>, has the
  columns \<open>asset-class\<close> (a string) and \<open>count\<close> (an integer), and its rows are, in this
  order, the row of \<open>bond\<close> when the bond counter is not zero and the row of \<open>stock\<close>
  when the stock counter is not zero, each with the counter as its count.
\<close>

theorem exe_result_table:
  "name (snd (exe st)) = ''asset-class_counts''
   \<and> columnNames (snd (exe st)) = [''asset-class'', ''count'']
   \<and> columnTypes (snd (exe st)) = [FIELD_TYPE_STRING, FIELD_TYPE_INT]
   \<and> records (snd (exe st)) =
       map (\<lambda>(c, n). [StringField c, IntField (sint n)])
         (filter (\<lambda>(c, n). n \<noteq> 0) [(''bond'', valid_bond_cnt st), (''stock'', valid_stock_cnt st)])"
  by (simp add: exe_def exe_counts_def exe_table_def addRecord_def valid_bond_cnt_def
      valid_stock_cnt_def split: prod.splits)

theorem exe_result_table_witness:
  "records (snd (exe sample_engine))
     = [[StringField ''bond'', IntField 1], [StringField ''stock'', IntField 2]]"
proof -
  have c: "exe_counts sample_engine = (True, 2, 1)"
    by (simp add: exe_counts_foldl sample_engine_def exe_step_eq add_trades_def
        price_scan_def volume_scan_def)
  show ?thesis
    using exe_result_table [of sample_engine]
    by (simp add: valid_bond_cnt_def valid_stock_cnt_def c)
qed

lemma exe_fst: "exe st = (st, snd (exe st))"
  by (simp add: exe_def exe_count_fold split: prod.splits)

lemma run_exe_eq:
  "run_exe n st tb = (st, if n = 0 then tb else Some (snd (exe st)))"
proof (induction n arbitrary: tb)
  case 0
  show ?case by simp
next
  case (Suc n)
  have "run_exe (Suc n) st tb = run_exe n st (Some (snd (exe st)))"
    by (subst run_exe.simps, subst exe_fst) simp
  then show ?case using Suc by simp
qed

text \<open>
  Claim C10. \<^verbatim>\<open>exe\<close> leaves the engine as it found it: the statements of \<^verbatim>\<open>exe\<close> that
  touch the engine are the iteration over the class map and \<^verbatim>\<open>find\<close> on the three
  other maps, in every iteration of the loop, and none of them changes the engine. So a
  second execution returns the table of the first, and the five executions of the
  driver end with the engine unchanged and the table of a single execution.
\<close>

theorem exe_frame:
  "fst (exe st) = st \<and> snd (exe (fst (exe st))) = snd (exe st)
     \<and> run_exe 5 st None = (st, Some (snd (exe st)))"
proof -
  have a: "fst (exe st) = st" by (subst exe_fst) simp
  show ?thesis by (simp add: a run_exe_eq)
qed

theorem exe_frame_witness:
  "run_exe 5 sample_engine None =
     (sample_engine,
      Some \<lparr>name = ''asset-class_counts'', columnNames = [''asset-class'', ''count''],
            columnTypes = [FIELD_TYPE_STRING, FIELD_TYPE_INT],
            records = [[StringField ''bond'', IntField 1], [StringField ''stock'', IntField 2]]\<rparr>)"
proof -
  have c: "exe_count sample_engine = (sample_engine, True, 2, 1)"
    by (simp add: exe_count_fold) (simp add: sample_engine_def exe_step_eq add_trades_def
        price_scan_def volume_scan_def)
  have "snd (exe sample_engine) =
      \<lparr>name = ''asset-class_counts'', columnNames = [''asset-class'', ''count''],
       columnTypes = [FIELD_TYPE_STRING, FIELD_TYPE_INT],
       records = [[StringField ''bond'', IntField 1], [StringField ''stock'', IntField 2]]\<rparr>"
    by (simp add: exe_def c exe_table_def addRecord_def)
  with exe_frame [of sample_engine] show ?thesis by simp
qed

subsection \<open>The failures of the loader\<close>

lemma print_FieldType_token: "type_token (print_FieldType tp)"
  by (cases tp) (simp_all add: type_token_def print_FieldType_def)

lemma parse_column_types_print:
  "parse_column_types (map print_FieldType tps) = Inr tps"
proof (induction tps)
  case Nil
  show ?case by simp
next
  case (Cons tp tps)
  then show ?case by (cases tp) (simp_all add: print_FieldType_def)
qed

lemma type_token_cases:
  assumes "type_token c"
  obtains tp where "c = print_FieldType tp"
proof -
  from assms consider "c = ''STRING''" | "c = ''INT''" | "c = ''FLOAT''"
    unfolding type_token_def by blast
  then show ?thesis
  proof cases
    case 1
    then have "c = print_FieldType FIELD_TYPE_STRING" by (simp add: print_FieldType_def)
    then show ?thesis by (rule that)
  next
    case 2
    then have "c = print_FieldType FIELD_TYPE_INT" by (simp add: print_FieldType_def)
    then show ?thesis by (rule that)
  next
    case 3
    then have "c = print_FieldType FIELD_TYPE_FLOAT" by (simp add: print_FieldType_def)
    then show ?thesis by (rule that)
  qed
qed

lemma type_tokens_printed:
  "\<forall>c \<in> set cs. type_token c \<Longrightarrow> \<exists>tps. cs = map print_FieldType tps"
proof (induction cs)
  case Nil
  show ?case by simp
next
  case (Cons c cs)
  then obtain tps where tps: "cs = map print_FieldType tps" by auto
  from Cons.prems have "type_token c" by simp
  then obtain tp where "c = print_FieldType tp" by (rule type_token_cases)
  with tps have "c # cs = map print_FieldType (tp # tps)" by simp
  then show ?case by (rule exI)
qed

lemma parse_column_types_good:
  "\<forall>c \<in> set cs. type_token c \<Longrightarrow>
     \<exists>tps. parse_column_types cs = Inr tps \<and> map print_FieldType tps = cs"
  using type_tokens_printed [of cs] parse_column_types_print by auto

lemma parse_column_types_unknown:
  "\<not> type_token c \<Longrightarrow> parse_column_types (c # cs) = Inl (UnknownColumnType c)"
  by (simp add: type_token_def)

lemma parse_column_types_known:
  assumes "type_token c" and "parse_column_types cs = Inl e"
  shows "parse_column_types (c # cs) = Inl e"
proof -
  from assms(1) obtain tp where "c = print_FieldType tp" by (rule type_token_cases)
  then show ?thesis using assms(2) by (cases tp) (simp_all add: print_FieldType_def)
qed

lemma parse_column_types_bad:
  "\<exists>c \<in> set cs. \<not> type_token c \<Longrightarrow>
     \<exists>c \<in> set cs. \<not> type_token c \<and> parse_column_types cs = Inl (UnknownColumnType c)"
proof (induction cs)
  case Nil
  then show ?case by simp
next
  case (Cons a cs)
  show ?case
  proof (cases "type_token a")
    case True
    with Cons.prems have "\<exists>c \<in> set cs. \<not> type_token c" by auto
    from Cons.IH [OF this] obtain c where
      c: "c \<in> set cs" "\<not> type_token c" "parse_column_types cs = Inl (UnknownColumnType c)"
      by blast
    from parse_column_types_known [OF True c(3)] c(1,2) show ?thesis
      by (intro bexI [of _ c]) simp_all
  next
    case False
    from parse_column_types_unknown [OF False] False show ?thesis
      by (intro bexI [of _ a]) simp_all
  qed
qed

text \<open>
  Claim C8. Where the loader stands at a \<^verbatim>\<open><TABLE>\<close> line, followed by a line of column
  names and a line of type tokens: if a type token is not one of the exact strings
  \<open>INT\<close>, \<open>FLOAT\<close>, \<open>STRING\<close>, loading fails and no engine results, whatever the state,
  the names and the lines that follow are. The failure is \<open>UnknownColumnType\<close> for
  such a token whenever the two header lines pass the assertions on their sizes, which
  come first (an empty name line fails with \<open>NoColumnNames\<close>, lines of different sizes
  with \<open>HeaderArityMismatch\<close>). If every token is one of the three, the loop over the
  type tokens completes with the column types, and the header does not fail with
  \<open>UnknownColumnType\<close>.
\<close>

theorem unknown_column_type_fatal:
  assumes "l \<noteq> []" and "hd l = ''<TABLE>''"
  shows "((\<exists>c \<in> set columnTypeNames. \<not> type_token c) \<longrightarrow>
           (\<exists>e. load_loop ps st flag (l # colNames # columnTypeNames # rest) = Inl e))
       \<and> ((\<exists>c \<in> set columnTypeNames. \<not> type_token c)
            \<and> colNames \<noteq> [] \<and> length colNames = length columnTypeNames \<longrightarrow>
           (\<exists>c \<in> set columnTypeNames. \<not> type_token c \<and>
              load_loop ps st flag (l # colNames # columnTypeNames # rest)
                = Inl (UnknownColumnType c)))
       \<and> (colNames = [] \<longrightarrow>
             load_loop ps st flag (l # colNames # columnTypeNames # rest) = Inl NoColumnNames)
       \<and> (colNames \<noteq> [] \<and> length colNames \<noteq> length columnTypeNames \<longrightarrow>
             load_loop ps st flag (l # colNames # columnTypeNames # rest)
               = Inl HeaderArityMismatch)
       \<and> ((\<forall>c \<in> set columnTypeNames. type_token c) \<longrightarrow>
           (\<exists>tps. parse_column_types columnTypeNames = Inr tps)
           \<and> (\<forall>c. load_header st flag l colNames columnTypeNames \<noteq> Inl (UnknownColumnType c)))"
proof -
  let ?load = "load_loop ps st flag (l # colNames # columnTypeNames # rest)"
  have step: "?load = Inl e" if "load_header st flag l colNames columnTypeNames = Inl e" for e
    using assms that by simp
  have empty: "?load = Inl NoColumnNames" if "colNames = []"
    using that by (intro step) (simp add: load_header_def)
  have sizes: "?load = Inl HeaderArityMismatch"
    if "colNames \<noteq> []" "length colNames \<noteq> length columnTypeNames"
    using that by (intro step) (cases colNames, simp_all add: load_header_def)
  have unknown: "\<exists>c \<in> set columnTypeNames. \<not> type_token c \<and> ?load = Inl (UnknownColumnType c)"
    if bad: "\<exists>c \<in> set columnTypeNames. \<not> type_token c"
      and ok: "colNames \<noteq> []" "length colNames = length columnTypeNames"
  proof -
    from parse_column_types_bad [OF bad] obtain c where
      c: "c \<in> set columnTypeNames" "\<not> type_token c"
         "parse_column_types columnTypeNames = Inl (UnknownColumnType c)"
      by blast
    have "load_header st flag l colNames columnTypeNames = Inl (UnknownColumnType c)"
      using ok c(3) by (cases colNames) (simp_all add: load_header_def)
    then have "?load = Inl (UnknownColumnType c)" by (rule step)
    with c(1,2) show ?thesis by (intro bexI [of _ c]) simp_all
  qed
  have fatal: "\<exists>e. ?load = Inl e" if bad: "\<exists>c \<in> set columnTypeNames. \<not> type_token c"
  proof (cases "colNames = []")
    case True
    then show ?thesis using empty by blast
  next
    case False
    show ?thesis
    proof (cases "length colNames = length columnTypeNames")
      case True
      with unknown [OF bad False] show ?thesis by blast
    next
      case False
      with sizes [OF \<open>colNames \<noteq> []\<close>] show ?thesis by blast
    qed
  qed
  have good: "(\<exists>tps. parse_column_types columnTypeNames = Inr tps)
      \<and> (\<forall>c. load_header st flag l colNames columnTypeNames \<noteq> Inl (UnknownColumnType c))"
    if "\<forall>c \<in> set columnTypeNames. type_token c"
  proof -
    from parse_column_types_good [OF that] obtain tps where
      tps: "parse_column_types columnTypeNames = Inr tps" by blast
    then have "load_header st flag l colNames columnTypeNames \<noteq> Inl (UnknownColumnType c)" for c
      by (simp add: load_header_def split: list.splits)
    with tps show ?thesis by blast
  qed
  from fatal unknown empty sizes good show ?thesis by blast
qed

theorem unknown_column_type_fatal_witness:
  "load_loop dec_platform new_engine 0
       [[''<TABLE>'', ''t''], [''a'', ''b''], [''INT'', ''Float''], [''1'', ''2'']]
     = Inl (UnknownColumnType ''Float'')
   \<and> load_loop dec_platform new_engine 0 bad_header_lines = Inl HeaderArityMismatch
   \<and> parse_column_types [''INT'', ''FLOAT''] = Inr [FIELD_TYPE_INT, FIELD_TYPE_FLOAT]"
proof -
  have h: "[''<TABLE>'', ''t''] \<noteq> []" "hd [''<TABLE>'', ''t''] = ''<TABLE>''"
    by simp_all
  have good: "type_token ''INT''" "type_token ''FLOAT''"
    and bad: "\<not> type_token ''Float''" "\<not> type_token ''BOGUS''"
    by (simp_all add: type_token_def)
  from bad(1) have "(\<exists>c \<in> set [''INT'', ''Float'']. \<not> type_token c)
      \<and> [''a'', ''b''] \<noteq> [] \<and> length [''a'', ''b''] = length [''INT'', ''Float'']"
    by simp
  with unknown_column_type_fatal
    [OF h, of "[''INT'', ''Float'']" dec_platform new_engine 0 "[''a'', ''b'']" "[[''1'', ''2'']]"]
  obtain c where c: "c \<in> set [''INT'', ''Float'']" "\<not> type_token c"
    "load_loop dec_platform new_engine 0
       [[''<TABLE>'', ''t''], [''a'', ''b''], [''INT'', ''Float''], [''1'', ''2'']]
     = Inl (UnknownColumnType c)"
    by blast
  from c(1,2) good(1) have "c = ''Float''" by auto
  with c(3) have first: "load_loop dec_platform new_engine 0
       [[''<TABLE>'', ''t''], [''a'', ''b''], [''INT'', ''Float''], [''1'', ''2'']]
     = Inl (UnknownColumnType ''Float'')"
    by simp
  have "[''a''] \<noteq> [] \<and> length [''a''] \<noteq> length [''INT'', ''BOGUS'']" by simp
  with unknown_column_type_fatal
    [OF h, of "[''INT'', ''BOGUS'']" dec_platform new_engine 0 "[''a'']" "[]"]
  have second: "load_loop dec_platform new_engine 0 bad_header_lines = Inl HeaderArityMismatch"
    by (simp add: bad_header_lines_def)
  have "\<forall>c \<in> set [''INT'', ''FLOAT'']. type_token c" using good by simp
  with unknown_column_type_fatal
    [OF h, of "[''INT'', ''FLOAT'']" dec_platform new_engine 0 "[''a'', ''b'']" "[]"]
  obtain tps where "parse_column_types [''INT'', ''FLOAT''] = Inr tps" by blast
  then have third: "parse_column_types [''INT'', ''FLOAT''] = Inr [FIELD_TYPE_INT, FIELD_TYPE_FLOAT]"
    by simp
  from first second third show ?thesis by simp
qed

text \<open>
  Claim C9. Where the loader stands at a data line (a line with a first cell other than
  \<^verbatim>\<open><TABLE>\<close>) while a current table exists, and the number of cells differs from the
  number of columns of the current table, loading fails with \<open>ArityMismatch\<close>: no
  engine results, so neither the row nor an index entry for it is stored.
\<close>

theorem arity_mismatch_fatal:
  assumes "l \<noteq> []" and "hd l \<noteq> ''<TABLE>''"
    and "tables st \<noteq> []" and "length l \<noteq> numColumns (last (tables st))"
  shows "load_row ps st flag l = Inl ArityMismatch
       \<and> load_loop ps st flag (l # rest) = Inl ArityMismatch"
proof -
  have r: "load_row ps st flag l = Inl ArityMismatch"
    using assms(3,4) by (auto simp: load_row_def Let_def)
  show ?thesis using assms(1,2) r by simp
qed

theorem arity_mismatch_fatal_witness:
  "load_loop dec_platform two_column_engine 0 [[''1''], [''2'', ''3'']] = Inl ArityMismatch
   \<and> load_loop dec_platform two_column_engine 0 [[''1'', ''2'', ''3'']] = Inl ArityMismatch"
proof -
  have h1: "[''1''] \<noteq> []" "hd [''1''] \<noteq> ''<TABLE>''"
    "tables two_column_engine \<noteq> []"
    "length [''1''] \<noteq> numColumns (last (tables two_column_engine))"
    by (simp_all add: two_column_engine_def numColumns_def)
  have h2: "[''1'', ''2'', ''3''] \<noteq> []" "hd [''1'', ''2'', ''3''] \<noteq> ''<TABLE>''"
    "length [''1'', ''2'', ''3''] \<noteq> numColumns (last (tables two_column_engine))"
    by (simp_all add: two_column_engine_def numColumns_def)
  show ?thesis
    using arity_mismatch_fatal [OF h1, of dec_platform 0 "[[''2'', ''3'']]"]
      arity_mismatch_fatal [OF h2(1,2) h1(3) h2(3), of dec_platform 0 "[]"]
    by simp
qed

subsection \<open>The index keeps the first value of a day\<close>

lemma map_find_insort_other:
  "k \<noteq> k' \<Longrightarrow> map_find k (insort_key fst (k', v) m) = map_find k m"
  by (induction m) auto

lemma map_find_insort_same:
  "map_find k m = None \<Longrightarrow> map_find k (insort_key fst (k, v) m) = Some v"
  by (induction m) (auto split: if_splits)

lemma map_find_insert_kept:
  "map_find k m = Some x \<Longrightarrow> map_find k (map_insert k' v m) = Some x"
  by (cases "k = k'") (auto simp: map_insert_def map_find_insort_other split: option.splits)

lemma map_find_insert_new:
  "map_find k m = None \<Longrightarrow> map_find k (map_insert k v m) = Some v"
  by (simp add: map_insert_def map_find_insort_same)

lemma map_find_modify:
  "map_find k (map_modify k' f m) = (if k = k' then map_option f (map_find k m) else map_find k m)"
  by (induction m) auto

lemma series_at_index_kept:
  "series_at series nm day = Some x \<Longrightarrow>
     series_at (index_series nm' day' x' series) nm day = Some x"
  by (auto simp: series_at_def index_series_def map_find_modify map_find_insert_kept
      split: option.splits)

lemma series_at_index_new:
  "series_at series nm day = None \<Longrightarrow>
     series_at (index_series nm day x series) nm day = Some x"
  by (auto simp: series_at_def index_series_def map_find_modify map_find_insert_new
      split: option.splits)

lemma price_at_series: "price_at st nm day = series_at (name_to_date_price st) nm day"
  by (simp add: price_at_def series_at_def)

lemma index_record_price_kept:
  assumes "index_record flag r st = Inr st'" and "price_at st nm day = Some x"
  shows "price_at st' nm day = Some x"
  using assms
  by (auto simp: index_record_def price_at_series index_tradable_def series_at_index_kept
      split: if_splits sum.splits)

lemma load_row_price_kept:
  assumes "load_row ps st flag l = Inr st'" and "price_at st nm day = Some x"
  shows "price_at st' nm day = Some x"
proof -
  from assms(1) obtain r st1 where
    "index_record flag r st = Inr st1"
    "st' = st1\<lparr>tables := butlast (tables st1) @ [addRecord (last (tables st1)) r]\<rparr>"
    by (auto simp: load_row_def Let_def split: if_splits sum.splits)
  with index_record_price_kept [OF _ assms(2)] show ?thesis
    by (simp add: price_at_def)
qed

lemma load_header_price_kept:
  assumes "load_header st flag l ns ts = Inr (st', flag')" and "price_at st nm day = Some x"
  shows "price_at st' nm day = Some x"
  using assms
  by (auto simp: load_header_def price_at_def split: if_splits sum.splits list.splits)

lemma load_loop_price_kept:
  "load_loop ps st flag lines = Inr st' \<Longrightarrow> price_at st nm day = Some x
     \<Longrightarrow> price_at st' nm day = Some x"
proof (induction ps st flag lines rule: load_loop.induct)
  case (1 ps st flag)
  then show ?case by simp
next
  case (2 ps st flag l rest)
  show ?case
  proof (cases "hd l = ''<TABLE>''")
    case True
    with "2.prems"(1) obtain ns ts rest' st1 flag1 where
      rest: "rest = ns # ts # rest'" and
      h: "load_header st flag l ns ts = Inr (st1, flag1)" and
      l: "load_loop ps st1 flag1 rest' = Inr st'" and ne: "length l > 0"
      by (auto split: if_splits sum.splits list.splits)
    have "price_at st1 nm day = Some x"
      by (rule load_header_price_kept [OF h "2.prems"(2)])
    with "2.IH"(1) [of ns "ts # rest'" ts rest' "(st1, flag1)" st1 flag1] True rest l ne h
    show ?thesis by simp
  next
    case False
    with "2.prems"(1) obtain st1 where
      r: "load_row ps st flag l = Inr st1" and
      l: "load_loop ps st1 flag rest = Inr st'" and ne: "length l > 0"
      by (auto split: if_splits sum.splits)
    have "price_at st1 nm day = Some x"
      by (rule load_row_price_kept [OF r "2.prems"(2)])
    with "2.IH"(2) [of st1] False r l ne show ?thesis by simp
  qed
qed

subsection \<open>Evaluating concrete inputs\<close>

lemma is_digit_iff:
  "is_digit c \<longleftrightarrow> 48 \<le> (of_char c :: nat) \<and> (of_char c :: nat) \<le> 57"
  by (simp add: is_digit_def less_eq_char_def)

lemmas dec_eval = dec_stoi_def dec_stof_def split_sign_def is_space_def is_digit_iff
  dec_show_int_def show_nat.simps

lemma dec_platform_sel:
  "stoi dec_platform = dec_stoi" "stof dec_platform = dec_stof"
  "show_int dec_platform = dec_show_int" "show_float dec_platform = dec_show_float"
  "indeterminate dec_platform = - 1"
  by (simp_all add: dec_platform_def)

lemmas load_eval = loadTablesFromCSV_def load_header_def load_row_def numColumns_def
  table_flag_def index_record_def TRADABLE_def PRICE_OVER_TIME_def VOLUME_OVER_TIME_def
  TRADES_def string_at_def int_at_def float_at_def index_series_def index_trade_def
  index_tradable_def map_insert_def addRecord_def new_engine_def dec_platform_sel dec_eval

text \<open>A data line that is loaded is stored as a row, and rows stay stored.\<close>

lemma index_record_tables:
  "index_record flag r st = Inr st' \<Longrightarrow> tables st' = tables st"
  by (auto simp: index_record_def index_tradable_def split: if_splits sum.splits)

lemma load_row_result:
  assumes "load_row ps st flag l = Inr st'"
  obtains r st1 where "parse_record ps (columnTypes (last (tables st))) l = Inr r"
    "index_record flag r st = Inr st1" "tables st \<noteq> []"
    "st' = st1\<lparr>tables := butlast (tables st) @ [addRecord (last (tables st)) r]\<rparr>"
proof -
  from assms obtain r st1 where a: "parse_record ps (columnTypes (last (tables st))) l = Inr r"
    "index_record flag r st = Inr st1" "tables st \<noteq> []"
    "st' = st1\<lparr>tables := butlast (tables st1) @ [addRecord (last (tables st1)) r]\<rparr>"
    by (auto simp: load_row_def Let_def split: if_splits sum.splits)
  from index_record_tables [OF a(2)] a show ?thesis by (intro that [of r st1]) simp_all
qed

lemma load_row_stores:
  assumes "load_row ps st flag l = Inr st'"
    and "parse_record ps (columnTypes (last (tables st))) l = Inr r"
  shows "row_stored st' r"
proof -
  from assms(1) obtain r' st1 where
    "parse_record ps (columnTypes (last (tables st))) l = Inr r'"
    "st' = st1\<lparr>tables := butlast (tables st) @ [addRecord (last (tables st)) r']\<rparr>"
    by (rule load_row_result)
  with assms(2) show ?thesis by (simp add: row_stored_def addRecord_def)
qed

lemma load_row_keeps_rows:
  assumes "load_row ps st flag l = Inr st'" and "row_stored st r"
  shows "row_stored st' r"
proof -
  from assms(1) obtain r' st1 where
    ne: "tables st \<noteq> []" and
    st': "st' = st1\<lparr>tables := butlast (tables st) @ [addRecord (last (tables st)) r']\<rparr>"
    by (rule load_row_result)
  from assms(2) obtain t where t: "t \<in> set (tables st)" "r \<in> set (records t)"
    by (auto simp: row_stored_def)
  from ne have "tables st = butlast (tables st) @ [last (tables st)]" by simp
  with t(1) have "t \<in> set (butlast (tables st)) \<or> t = last (tables st)"
    by (metis Un_iff empty_iff empty_set set_ConsD set_append)
  with t(2) show ?thesis
    by (auto simp: row_stored_def st' addRecord_def)
qed

lemma load_header_keeps_rows:
  assumes "load_header st flag l ns ts = Inr (st', flag')" and "row_stored st r"
  shows "row_stored st' r"
  using assms
  by (auto simp: load_header_def row_stored_def split: if_splits sum.splits list.splits)

lemma load_loop_keeps_rows:
  "load_loop ps st flag lines = Inr st' \<Longrightarrow> row_stored st r \<Longrightarrow> row_stored st' r"
proof (induction ps st flag lines rule: load_loop.induct)
  case (1 ps st flag)
  then show ?case by simp
next
  case (2 ps st flag l rest)
  show ?case
  proof (cases "hd l = ''<TABLE>''")
    case True
    with "2.prems"(1) obtain ns ts rest' st1 flag1 where
      rest: "rest = ns # ts # rest'" and
      h: "load_header st flag l ns ts = Inr (st1, flag1)" and
      l: "load_loop ps st1 flag1 rest' = Inr st'" and ne: "length l > 0"
      by (auto split: if_splits sum.splits list.splits)
    have "row_stored st1 r"
      by (rule load_header_keeps_rows [OF h "2.prems"(2)])
    with "2.IH"(1) [of ns "ts # rest'" ts rest' "(st1, flag1)" st1 flag1] True rest l ne h
    show ?thesis by simp
  next
    case False
    with "2.prems"(1) obtain st1 where
      r: "load_row ps st flag l = Inr st1" and
      l: "load_loop ps st1 flag rest = Inr st'" and ne: "length l > 0"
      by (auto split: if_splits sum.splits)
    have "row_stored st1 r"
      by (rule load_row_keeps_rows [OF r "2.prems"(2)])
    with "2.IH"(2) [of st1] False r l ne show ?thesis by simp
  qed
qed

text \<open>
  Claim C1 (as amended). The index keeps the price of the first row of an instrument
  and a day. When a data line of a price table is loaded and the rest of the input
  after it, then at the end the index holds, for the day and the instrument of the
  line, the price of the line if the index held no price for them before the line, and
  the price it held before the line (that of an earlier row) otherwise; in both cases
  the record of the line is a row of a table. So of two rows for an instrument and a
  day the index has the price of the earlier one, and both are stored.
\<close>

theorem first_price_kept:
  assumes flag: "flag = PRICE_OVER_TIME"
    and line: "l \<noteq> []" "hd l \<noteq> ''<TABLE>''"
    and load: "load_loop ps st flag (l # rest) = Inr st'"
    and row: "parse_record ps (columnTypes (last (tables st))) l = Inr r"
      "int_at r 0 = Inr day" "string_at r 1 = Inr nm" "float_at r 2 = Inr price"
  shows "price_at st' nm day =
           (case price_at st nm day of None \<Rightarrow> Some price | Some earlier \<Rightarrow> Some earlier)
       \<and> row_stored st' r"
proof -
  from load line obtain st1 where
    r: "load_row ps st flag l = Inr st1" and l: "load_loop ps st1 flag rest = Inr st'"
    by (auto split: if_splits sum.splits)
  from r row(1) obtain st0 where
    i: "index_record flag r st = Inr st0" and
    s: "st1 = st0\<lparr>tables := butlast (tables st0) @ [addRecord (last (tables st0)) r]\<rparr>"
    by (auto simp: load_row_def Let_def split: if_splits sum.splits)
  have f: "flag \<noteq> TRADABLE"
    by (simp add: flag TRADABLE_def PRICE_OVER_TIME_def)
  from i row(2-4) have
    st0: "st0 = st\<lparr>name_to_date_price := index_series nm day price (name_to_date_price st)\<rparr>"
    by (simp add: index_record_def f) (simp add: flag)
  have "price_at st0 nm day =
      (case price_at st nm day of None \<Rightarrow> Some price | Some earlier \<Rightarrow> Some earlier)"
  proof (cases "price_at st nm day")
    case None
    with st0 show ?thesis by (simp add: price_at_series series_at_index_new)
  next
    case (Some earlier)
    with st0 show ?thesis by (simp add: price_at_series series_at_index_kept)
  qed
  with s have "price_at st1 nm day =
      (case price_at st nm day of None \<Rightarrow> Some price | Some earlier \<Rightarrow> Some earlier)"
    by (simp add: price_at_def)
  then obtain x where x: "price_at st1 nm day = Some x"
    "(case price_at st nm day of None \<Rightarrow> Some price | Some earlier \<Rightarrow> Some earlier) = Some x"
    by (cases "price_at st nm day") auto
  from load_loop_price_kept [OF l x(1)] x(2) have index: "price_at st' nm day =
      (case price_at st nm day of None \<Rightarrow> Some price | Some earlier \<Rightarrow> Some earlier)"
    by simp
  have "row_stored st1 r" using r row(1) by (rule load_row_stores)
  with l have "row_stored st' r" by (rule load_loop_keeps_rows)
  with index show ?thesis by simp
qed

theorem first_price_kept_witness:
  "map_sum id
       (\<lambda>st. (price_at st ''AAA'' 13,
              row_stored st [IntField 13, StringField ''AAA'', FloatField (Finite 250)]))
       (load_loop dec_platform price_header_engine PRICE_OVER_TIME
          [[''13'', ''AAA'', ''250.0''], [''13'', ''AAA'', ''300.0'']])
     = Inr (Some (Finite 250), True)
   \<and> map_sum id
       (\<lambda>st. (price_at st ''AAA'' 13,
              row_stored st [IntField 13, StringField ''AAA'', FloatField (Finite 300)]))
       (load_loop dec_platform one_price_engine PRICE_OVER_TIME [[''13'', ''AAA'', ''300.0'']])
     = Inr (Some (Finite 250), True)"
proof -
  have "\<exists>st'. load_loop dec_platform price_header_engine PRICE_OVER_TIME
          ([''13'', ''AAA'', ''250.0''] # [[''13'', ''AAA'', ''300.0'']]) = Inr st'"
    by (simp add: price_header_engine_def load_eval)
  then obtain st1 where
    load1: "load_loop dec_platform price_header_engine PRICE_OVER_TIME
          ([''13'', ''AAA'', ''250.0''] # [[''13'', ''AAA'', ''300.0'']]) = Inr st1"
    by blast
  have "\<exists>st'. load_loop dec_platform one_price_engine PRICE_OVER_TIME
          ([''13'', ''AAA'', ''300.0''] # []) = Inr st'"
    by (simp add: one_price_engine_def price_header_engine_def load_eval)
  then obtain st2 where
    load2: "load_loop dec_platform one_price_engine PRICE_OVER_TIME
          ([''13'', ''AAA'', ''300.0''] # []) = Inr st2"
    by blast
  have line1: "[''13'', ''AAA'', ''250.0''] \<noteq> []" "hd [''13'', ''AAA'', ''250.0''] \<noteq> ''<TABLE>''"
    and line2: "[''13'', ''AAA'', ''300.0''] \<noteq> []" "hd [''13'', ''AAA'', ''300.0''] \<noteq> ''<TABLE>''"
    by simp_all
  have row1: "parse_record dec_platform (columnTypes (last (tables price_header_engine)))
        [''13'', ''AAA'', ''250.0'']
      = Inr [IntField 13, StringField ''AAA'', FloatField (Finite 250)]"
    "int_at [IntField 13, StringField ''AAA'', FloatField (Finite 250)] 0 = Inr 13"
    "string_at [IntField 13, StringField ''AAA'', FloatField (Finite 250)] 1 = Inr ''AAA''"
    "float_at [IntField 13, StringField ''AAA'', FloatField (Finite 250)] 2 = Inr (Finite 250)"
    by (simp_all add: price_header_engine_def load_eval)
  have row2: "parse_record dec_platform (columnTypes (last (tables one_price_engine)))
        [''13'', ''AAA'', ''300.0'']
      = Inr [IntField 13, StringField ''AAA'', FloatField (Finite 300)]"
    "int_at [IntField 13, StringField ''AAA'', FloatField (Finite 300)] 0 = Inr 13"
    "string_at [IntField 13, StringField ''AAA'', FloatField (Finite 300)] 1 = Inr ''AAA''"
    "float_at [IntField 13, StringField ''AAA'', FloatField (Finite 300)] 2 = Inr (Finite 300)"
    by (simp_all add: one_price_engine_def price_header_engine_def load_eval)
  have first: "price_at price_header_engine ''AAA'' 13 = None"
    by (simp add: price_header_engine_def price_at_def new_engine_def)
  have second: "price_at one_price_engine ''AAA'' 13 = Some (Finite 250)"
    by (simp add: one_price_engine_def price_header_engine_def price_at_def new_engine_def)
  from first_price_kept [OF refl line1 load1 row1] first
    first_price_kept [OF refl line2 load2 row2] second
  show ?thesis using load1 load2 by simp
qed


text \<open>Of the two rows of \<open>duplicate_day_lines\<close> the index keeps 250, the price of the
  earlier row, and not 300, the price of the later one.\<close>

theorem first_price_kept_counterexample:
  "map_sum id (\<lambda>st. price_at st ''AAA'' 13)
       (loadTablesFromCSV dec_platform new_engine duplicate_day_lines)
     = Inr (Some (Finite 250))
   \<and> stof dec_platform ''300.0'' = Some (Finite 300)"
  by (simp add: duplicate_day_lines_def price_at_def load_eval)

subsection \<open>The flag of the query across instruments\<close>

lemmas exe_eval = exe_def exe_count_fold exe_step_eq add_trades_def price_scan_def
  volume_scan_def exe_table_def

text \<open>
  Claim C2 does not hold of the code. \<^verbatim>\<open>valid_flag\<close> is declared before the loop over
  the instruments and is only assigned where a series is found, so an instrument with
  neither series is judged by the flag its predecessor left. In \<open>stale_flag_lines\<close>
  the stock BBB has a trade and no series at all; it comes after AAA, whose price series
  passes, and its trade is counted: the result is the row \<open>stock, 2\<close>. Alone, in
  \<open>lone_instrument_lines\<close>, the same instrument adds nothing and the result has no row.
\<close>

theorem stale_flag_counts_instrument_without_series:
  "map_sum id
       (\<lambda>st. (map_find ''BBB'' (name_to_date_price st), map_find ''BBB'' (name_to_date_volume st),
              records (snd (exe st))))
       (loadTablesFromCSV dec_platform new_engine stale_flag_lines)
     = Inr (None, None, [[StringField ''stock'', IntField 2]])
   \<and> map_sum id
       (\<lambda>st. (map_find ''BBB'' (name_to_date_price st), map_find ''BBB'' (name_to_date_volume st),
              records (snd (exe st))))
       (loadTablesFromCSV dec_platform new_engine lone_instrument_lines)
     = Inr (None, None, [])"
  by (simp add: stale_flag_lines_def lone_instrument_lines_def load_eval exe_eval)

subsection \<open>Printing a table and loading it again\<close>





























subsection \<open>Loaded series are in key order\<close>

text \<open>The scans of the query are characterised on series in key order. That is no
  restriction: every series of an engine loaded from a new engine is in key order.\<close>

lemma sorted_map_insert:
  "sorted (map fst m) \<Longrightarrow> sorted (map fst (map_insert k v m))"
  by (simp add: map_insert_def sorted_insort_key split: option.splits)

lemma set_map_modify:
  "e \<in> set (map_modify k f m) \<Longrightarrow> e \<in> set m \<or> (\<exists>v. (k, v) \<in> set m \<and> e = (k, f v))"
  by (induction m) (auto split: if_splits)

lemma map_find_set: "map_find k m = Some v \<Longrightarrow> (k, v) \<in> set m"
  by (induction m) (auto split: if_splits)

lemma series_sorted_index:
  assumes "series_sorted series"
  shows "series_sorted (index_series nm day x series)"
proof (cases "map_find nm series")
  case None
  then have "index_series nm day x series = insort_key fst (nm, [(day, x)]) series"
    by (simp add: index_series_def map_insert_def)
  with assms show ?thesis
    by (auto simp: series_sorted_def set_insort_key)
next
  case (Some found)
  then have i: "index_series nm day x series = map_modify nm (map_insert day x) series"
    by (simp add: index_series_def)
  show ?thesis
    unfolding series_sorted_def i
  proof
    fix e assume "e \<in> set (map_modify nm (map_insert day x) series)"
    from set_map_modify [OF this] assms show "sorted (map fst (snd e))"
      by (auto simp: series_sorted_def sorted_map_insert)
  qed
qed

lemma index_record_sorted:
  "index_record flag r st = Inr st' \<Longrightarrow> engine_sorted st \<Longrightarrow> engine_sorted st'"
  by (auto simp: index_record_def engine_sorted_def index_tradable_def series_sorted_index
      split: if_splits sum.splits)

lemma load_row_sorted:
  assumes "load_row ps st flag l = Inr st'" and "engine_sorted st"
  shows "engine_sorted st'"
proof -
  from assms(1) obtain r st1 where
    "index_record flag r st = Inr st1"
    "st' = st1\<lparr>tables := butlast (tables st1) @ [addRecord (last (tables st1)) r]\<rparr>"
    by (auto simp: load_row_def Let_def split: if_splits sum.splits)
  with index_record_sorted [OF _ assms(2)] show ?thesis
    by (simp add: engine_sorted_def)
qed

lemma load_header_sorted:
  assumes "load_header st flag l ns ts = Inr (st', flag')" and "engine_sorted st"
  shows "engine_sorted st'"
  using assms
  by (auto simp: load_header_def engine_sorted_def split: if_splits sum.splits list.splits)

lemma load_loop_sorted:
  "load_loop ps st flag lines = Inr st' \<Longrightarrow> engine_sorted st \<Longrightarrow> engine_sorted st'"
proof (induction ps st flag lines rule: load_loop.induct)
  case (1 ps st flag)
  then show ?case by simp
next
  case (2 ps st flag l rest)
  show ?case
  proof (cases "hd l = ''<TABLE>''")
    case True
    with "2.prems"(1) obtain ns ts rest' st1 flag1 where
      rest: "rest = ns # ts # rest'" and
      h: "load_header st flag l ns ts = Inr (st1, flag1)" and
      l: "load_loop ps st1 flag1 rest' = Inr st'" and ne: "length l > 0"
      by (auto split: if_splits sum.splits list.splits)
    have "engine_sorted st1"
      by (rule load_header_sorted [OF h "2.prems"(2)])
    with "2.IH"(1) [of ns "ts # rest'" ts rest' "(st1, flag1)" st1 flag1] True rest l ne h
    show ?thesis by simp
  next
    case False
    with "2.prems"(1) obtain st1 where
      r: "load_row ps st flag l = Inr st1" and
      l: "load_loop ps st1 flag rest = Inr st'" and ne: "length l > 0"
      by (auto split: if_splits sum.splits)
    have "engine_sorted st1"
      by (rule load_row_sorted [OF r "2.prems"(2)])
    with "2.IH"(2) [of st1] False r l ne show ?thesis by simp
  qed
qed

lemma loaded_series_sorted:
  assumes "loadTablesFromCSV ps new_engine lines = Inr st"
  shows "(map_find nm (name_to_date_price st) = Some m \<longrightarrow> sorted (map fst m))
       \<and> (map_find nm (name_to_date_volume st) = Some m \<longrightarrow> sorted (map fst m))"
proof -
  have "engine_sorted new_engine"
    by (simp add: engine_sorted_def series_sorted_def new_engine_def)
  with assms have "engine_sorted st"
    unfolding loadTablesFromCSV_def by (rule load_loop_sorted)
  then show ?thesis
    by (auto simp: engine_sorted_def series_sorted_def dest!: map_find_set)
qed

end
